theory Spec2Isabelle
  imports Complex_Main "HOL-Library.Multiset"
begin

section \<open>JavaScript numbers\<close>

text \<open>
  A JavaScript number is modelled by its exact real value, or one of the three special
  values. Rounding to a double and the sign of zero are not represented: \<open>Num 0\<close>
  stands for both zeros.
\<close>

datatype jsnum = Num real | PInf | NInf | NaN

fun js_neg :: "jsnum \<Rightarrow> jsnum" where
  "js_neg (Num r) = Num (- r)"
| "js_neg PInf = NInf"
| "js_neg NInf = PInf"
| "js_neg NaN = NaN"

fun js_add :: "jsnum \<Rightarrow> jsnum \<Rightarrow> jsnum" where
  "js_add (Num a) (Num b) = Num (a + b)"
| "js_add NaN _ = NaN"
| "js_add _ NaN = NaN"
| "js_add PInf NInf = NaN"
| "js_add NInf PInf = NaN"
| "js_add PInf _ = PInf"
| "js_add _ PInf = PInf"
| "js_add NInf _ = NInf"
| "js_add _ NInf = NInf"

definition js_sub :: "jsnum \<Rightarrow> jsnum \<Rightarrow> jsnum" where
  "js_sub x y = js_add x (js_neg y)"

fun js_negative :: "jsnum \<Rightarrow> bool" where
  "js_negative (Num r) = (r < 0)"
| "js_negative NInf = True"
| "js_negative _ = False"

fun js_mul :: "jsnum \<Rightarrow> jsnum \<Rightarrow> jsnum" where
  "js_mul (Num a) (Num b) = Num (a * b)"
| "js_mul NaN _ = NaN"
| "js_mul _ NaN = NaN"
| "js_mul x y =
     (if x = Num 0 \<or> y = Num 0 then NaN
      else if js_negative x = js_negative y then PInf else NInf)"

fun js_div :: "jsnum \<Rightarrow> jsnum \<Rightarrow> jsnum" where
  "js_div (Num a) (Num b) =
     (if b = 0 then (if a = 0 then NaN else if 0 < a then PInf else NInf)
      else Num (a / b))"
| "js_div NaN _ = NaN"
| "js_div _ NaN = NaN"
| "js_div (Num a) _ = Num 0"
| "js_div x (Num b) = (if js_negative x = (b < 0) then PInf else NInf)"
| "js_div _ _ = NaN"

text \<open>The sign tests a comparator result goes through: \<open>v > 0\<close> and \<open>v < 0\<close>.\<close>

fun js_gt0 :: "jsnum \<Rightarrow> bool" where
  "js_gt0 (Num r) = (0 < r)"
| "js_gt0 PInf = True"
| "js_gt0 _ = False"


text \<open>The relational operator \<open><=\<close>: false as soon as an operand is \<open>NaN\<close>.\<close>

fun js_le :: "jsnum \<Rightarrow> jsnum \<Rightarrow> bool" where
  "js_le NaN _ = False"
| "js_le _ NaN = False"
| "js_le (Num a) (Num b) = (a \<le> b)"
| "js_le NInf _ = True"
| "js_le _ PInf = True"
| "js_le _ _ = False"

text \<open>Truthiness of a number: \<open>0\<close> and \<open>NaN\<close> are falsy.\<close>

fun js_truthy :: "jsnum \<Rightarrow> bool" where
  "js_truthy (Num r) = (r \<noteq> 0)"
| "js_truthy NaN = False"
| "js_truthy _ = True"

definition Math_PI :: jsnum where
  "Math_PI = Num pi"

fun Math_sin :: "jsnum \<Rightarrow> jsnum" where
  "Math_sin (Num r) = Num (sin r)"
| "Math_sin _ = NaN"

fun Math_cos :: "jsnum \<Rightarrow> jsnum" where
  "Math_cos (Num r) = Num (cos r)"
| "Math_cos _ = NaN"

fun Math_sqrt :: "jsnum \<Rightarrow> jsnum" where
  "Math_sqrt (Num r) = (if r < 0 then NaN else Num (sqrt r))"
| "Math_sqrt PInf = PInf"
| "Math_sqrt _ = NaN"

fun Math_atan2 :: "jsnum \<Rightarrow> jsnum \<Rightarrow> jsnum" where
  "Math_atan2 (Num y) (Num x) =
     (if 0 < x then Num (arctan (y / x))
      else if x < 0 then (if 0 \<le> y then Num (arctan (y / x) + pi) else Num (arctan (y / x) - pi))
      else if 0 < y then Num (pi / 2)
      else if y < 0 then Num (- pi / 2)
      else Num 0)"
| "Math_atan2 NaN _ = NaN"
| "Math_atan2 _ NaN = NaN"
| "Math_atan2 (Num y) PInf = Num 0"
| "Math_atan2 (Num y) NInf = (if 0 \<le> y then Num pi else Num (- pi))"
| "Math_atan2 PInf (Num x) = Num (pi / 2)"
| "Math_atan2 NInf (Num x) = Num (- pi / 2)"
| "Math_atan2 PInf PInf = Num (pi / 4)"
| "Math_atan2 PInf NInf = Num (3 * pi / 4)"
| "Math_atan2 NInf PInf = Num (- pi / 4)"
| "Math_atan2 NInf NInf = Num (- 3 * pi / 4)"

section \<open>Strings\<close>

text \<open>
  A string is a list of characters. \<open>toLowerCase\<close> is modelled on the ASCII letters;
  every other character is kept.
\<close>

definition lower_char :: "char \<Rightarrow> char" where
  "lower_char c =
     (case map_of (zip ''ABCDEFGHIJKLMNOPQRSTUVWXYZ'' ''abcdefghijklmnopqrstuvwxyz'') c of
        Some d \<Rightarrow> d
      | None \<Rightarrow> c)"

definition toLowerCase :: "string \<Rightarrow> string" where
  "toLowerCase s = map lower_char s"

definition startsWith :: "string \<Rightarrow> string \<Rightarrow> bool" where
  "startsWith s p = (take (length p) s = p)"

fun includes_str :: "string \<Rightarrow> string \<Rightarrow> bool" where
  "includes_str [] t = (t = [])"
| "includes_str (c # cs) t = (startsWith (c # cs) t \<or> includes_str cs t)"

subsection \<open>parseFloat\<close>

text \<open>
  \<open>parseFloat\<close> skips leading white space (here the ASCII white space characters), reads
  an optional sign and the longest decimal literal that follows, and ignores the rest of
  the text. The number read is kept exact.
\<close>

definition is_digit :: "char \<Rightarrow> bool" where
  "is_digit c = (let n = (of_char c :: nat) in 48 \<le> n \<and> n \<le> 57)"

definition is_space :: "char \<Rightarrow> bool" where
  "is_space c = (of_char c \<in> {9, 10, 11, 12, 13, 32 :: nat})"

definition digit_val :: "char \<Rightarrow> nat" where
  "digit_val c = of_char c - 48"

definition digits_val :: "string \<Rightarrow> nat" where
  "digits_val ds = foldl (\<lambda>acc c. 10 * acc + digit_val c) 0 ds"

text \<open>
  The optional exponent part \<open>e\<close>, sign, digits of a decimal literal: the power of ten
  it denotes, as a factor; \<open>1\<close> when the text has no complete exponent part.
\<close>

definition exponent_factor :: "string \<Rightarrow> real" where
  "exponent_factor s =
     (case s of
        [] \<Rightarrow> 1
      | c # r \<Rightarrow>
          if c = CHR ''e'' \<or> c = CHR ''E'' then
            (case r of
               [] \<Rightarrow> 1
             | d # r' \<Rightarrow>
                 if d = CHR ''-'' then
                   (if takeWhile is_digit r' = [] then 1
                    else 1 / 10 ^ digits_val (takeWhile is_digit r'))
                 else if d = CHR ''+'' then
                   (if takeWhile is_digit r' = [] then 1
                    else 10 ^ digits_val (takeWhile is_digit r'))
                 else
                   (if takeWhile is_digit r = [] then 1
                    else 10 ^ digits_val (takeWhile is_digit r)))
          else 1)"

text \<open>
  An unsigned decimal literal at the start of the text: \<open>Infinity\<close>, or digits with an
  optional fraction and exponent, or a fraction that starts with the point. The longest
  such prefix is read; no such prefix gives \<open>NaN\<close>.
\<close>

definition unsigned_literal :: "string \<Rightarrow> jsnum" where
  "unsigned_literal s =
     (if startsWith s ''Infinity'' then PInf
      else
        let ip = takeWhile is_digit s;
            r1 = dropWhile is_digit s;
            has_point = (r1 \<noteq> [] \<and> hd r1 = CHR ''.'');
            fp = (if has_point then takeWhile is_digit (tl r1) else []);
            r2 = (if has_point then dropWhile is_digit (tl r1) else r1)
        in if ip = [] \<and> fp = [] then NaN
           else Num ((real (digits_val ip) + real (digits_val fp) / 10 ^ length fp)
                     * exponent_factor r2))"

definition parseFloat :: "string \<Rightarrow> jsnum" where
  "parseFloat s =
     (let t = dropWhile is_space s in
      case t of
        [] \<Rightarrow> NaN
      | c # r \<Rightarrow>
          if c = CHR ''-'' then js_neg (unsigned_literal r)
          else if c = CHR ''+'' then unsigned_literal r
          else unsigned_literal t)"

section \<open>Coordinate parser\<close>

record coord =
  lat :: jsnum
  lng :: jsnum

text \<open>
  A location value as the data store returns it: absent (\<open>null\<close> or \<open>undefined\<close>),
  a string, or an object that already holds coordinates.
\<close>

datatype loc_value = LNull | LText string | LObject jsnum jsnum

text \<open>
  The second capture group \<open>([^ ]+)\<close> followed by \<open>\)\<close>, on the run of characters up
  to the next space: greedy, so it ends before the last closing parenthesis of the run,
  and it is not empty.
\<close>

definition greedy_before_close :: "string \<Rightarrow> string option" where
  "greedy_before_close run =
     (case dropWhile (\<lambda>c. c \<noteq> CHR '')'') (rev run) of
        [] \<Rightarrow> None
      | _ # br \<Rightarrow> if br = [] then None else Some (rev br))"

text \<open>
  The pattern \<open>([^ ]+) ([^ ]+)\)\<close> right after an opening parenthesis. The first group
  cannot hold a space and a space follows it, so it is the whole run up to the first space.
\<close>

definition match_here :: "string \<Rightarrow> (string \<times> string) option" where
  "match_here rest =
     (let g1 = takeWhile (\<lambda>c. c \<noteq> CHR '' '') rest;
          r1 = dropWhile (\<lambda>c. c \<noteq> CHR '' '') rest
      in if g1 = [] then None
         else case r1 of
                [] \<Rightarrow> None
              | _ # r2 \<Rightarrow>
                  (case greedy_before_close (takeWhile (\<lambda>c. c \<noteq> CHR '' '') r2) of
                     None \<Rightarrow> None
                   | Some g2 \<Rightarrow> Some (g1, g2)))"

text \<open>
  \<open>loc.match(/\(([^ ]+) ([^ ]+)\)/)\<close>: the leftmost position where the pattern matches,
  giving the two capture groups.
\<close>

fun regex_match :: "string \<Rightarrow> (string \<times> string) option" where
  "regex_match [] = None"
| "regex_match (c # rest) =
     (if c = CHR ''(''
      then (case match_here rest of Some g \<Rightarrow> Some g | None \<Rightarrow> regex_match rest)
      else regex_match rest)"

fun parseLocation :: "loc_value \<Rightarrow> coord option" where
  "parseLocation LNull = None"
| "parseLocation (LObject y x) = None"
| "parseLocation (LText s) =
     (if s = [] then None
      else if startsWith s ''POINT'' then
        (case regex_match s of
           Some (g1, g2) \<Rightarrow> Some \<lparr>lat = parseFloat g2, lng = parseFloat g1\<rparr>
         | None \<Rightarrow> None)
      else None)"

section \<open>Great-circle distance\<close>

text \<open>
  The haversine computation, operation by operation as the source has it, on the model of
  numbers above: the arithmetic is exact, so what the rounding of each operation does to
  the result lies outside the model.
\<close>

definition deg2rad :: "jsnum \<Rightarrow> jsnum" where
  "deg2rad deg = js_mul deg (js_div Math_PI (Num 180))"

definition getDistanceFromLatLonInKm :: "jsnum \<Rightarrow> jsnum \<Rightarrow> jsnum \<Rightarrow> jsnum \<Rightarrow> jsnum" where
  "getDistanceFromLatLonInKm lat1 lon1 lat2 lon2 =
     (let R = Num 6371;
          dLat = deg2rad (js_sub lat2 lat1);
          dLon = deg2rad (js_sub lon2 lon1);
          a = js_add
                (js_mul (Math_sin (js_div dLat (Num 2))) (Math_sin (js_div dLat (Num 2))))
                (js_mul
                   (js_mul
                      (js_mul (Math_cos (deg2rad lat1)) (Math_cos (deg2rad lat2)))
                      (Math_sin (js_div dLon (Num 2))))
                   (Math_sin (js_div dLon (Num 2))));
          c = js_mul (Num 2) (Math_atan2 (Math_sqrt a) (Math_sqrt (js_sub (Num 1) a)));
          d = js_mul R c
      in d)"

section \<open>Places and the state of the page\<close>

record metadata =
  tags :: "string list option"
  description :: "string option"
  original_description :: "string option"

text \<open>
  The type \<open>Place\<close>. The field \<open>distance\<close> is the client-side one: absent on a fetched
  row, set on the copies the pipeline makes.
\<close>

record place =
  id' :: string
  name :: string
  category :: string
  subcategory :: "string option"
  location :: loc_value
  metadata :: "metadata option"
  google_url :: "string option"
  rating :: "jsnum option"
  address :: "string option"
  distance :: "jsnum option"

text \<open>\<open>p.metadata?.tags\<close>\<close>

definition meta_tags :: "place \<Rightarrow> string list option" where
  "meta_tags p = (case metadata p of None \<Rightarrow> None | Some m \<Rightarrow> tags m)"

record home_state =
  places :: "place list"
  loading :: bool
  searchTerm :: string
  activeCategory :: string
  activeTag :: string
  userLocation :: "coord option"
  page :: nat
  searchExpanded :: bool

definition PAGE_SIZE :: nat where
  "PAGE_SIZE = 30"

definition initial_state :: home_state where
  "initial_state =
     \<lparr>places = [], loading = True, searchTerm = [], activeCategory = ''food'',
      activeTag = [], userLocation = None, page = 1, searchExpanded = False\<rparr>"

subsection \<open>Event handlers\<close>

text \<open>The click on a category tab.\<close>

definition onCategoryClick :: "string \<Rightarrow> home_state \<Rightarrow> home_state" where
  "onCategoryClick cat st = st\<lparr>activeCategory := cat, activeTag := [], page := 1\<rparr>"

text \<open>The change of the search input.\<close>

definition onSearchChange :: "string \<Rightarrow> home_state \<Rightarrow> home_state" where
  "onSearchChange v st = st\<lparr>searchTerm := v\<rparr>"

text \<open>The click on a tag chip; the chip for all tags passes the empty string.\<close>

definition onTagClick :: "string \<Rightarrow> home_state \<Rightarrow> home_state" where
  "onTagClick tag st = st\<lparr>activeTag := tag\<rparr>"

text \<open>The click on the button that loads more.\<close>

definition onLoadMore :: "home_state \<Rightarrow> home_state" where
  "onLoadMore st = st\<lparr>page := page st + 1\<rparr>"

section \<open>The pipeline\<close>

subsection \<open>Sorting\<close>

text \<open>
  \<open>Array.prototype.sort\<close> belongs to the host and is stable. It is modelled as a stable
  insertion sort: an element moves behind a neighbour only when the comparator's result
  for the two is greater than zero, so a result of \<open>0\<close> or \<open>NaN\<close> keeps the pair as it is.
\<close>

fun insert_sorted :: "('a \<Rightarrow> 'a \<Rightarrow> jsnum) \<Rightarrow> 'a \<Rightarrow> 'a list \<Rightarrow> 'a list" where
  "insert_sorted cmp x [] = [x]"
| "insert_sorted cmp x (y # ys) =
     (if js_gt0 (cmp x y) then y # insert_sorted cmp x ys else x # y # ys)"

fun array_sort :: "('a \<Rightarrow> 'a \<Rightarrow> jsnum) \<Rightarrow> 'a list \<Rightarrow> 'a list" where
  "array_sort cmp [] = []"
| "array_sort cmp (x # xs) = insert_sorted cmp x (array_sort cmp xs)"

text \<open>The comparator handed to \<open>sort\<close>.\<close>

definition sort_cmp :: "place \<Rightarrow> place \<Rightarrow> jsnum" where
  "sort_cmp a b =
     (case (distance a, distance b) of
        (Some x, Some y) \<Rightarrow> js_sub x y
      | _ \<Rightarrow> Num 0)"

subsection \<open>Annotation, filters, sort\<close>

definition annotate :: "coord option \<Rightarrow> place \<Rightarrow> place" where
  "annotate user p =
     (let pLoc = parseLocation (location p);
          dist = (case (user, pLoc) of
                    (Some u, Some l) \<Rightarrow>
                      Some (getDistanceFromLatLonInKm (lat u) (lng u) (lat l) (lng l))
                  | _ \<Rightarrow> None)
      in p\<lparr>distance := dist\<rparr>)"

definition search_match :: "string \<Rightarrow> place \<Rightarrow> bool" where
  "search_match lower p =
     (includes_str (toLowerCase (name p)) lower \<or>
      (case meta_tags p of
         None \<Rightarrow> False
       | Some ts \<Rightarrow> list_ex (\<lambda>t. includes_str (toLowerCase t) lower) ts))"

definition category_step :: "string \<Rightarrow> place list \<Rightarrow> place list" where
  "category_step cat result =
     (if cat \<noteq> ''all'' then filter (\<lambda>p. category p = cat) result else result)"

definition search_step :: "string \<Rightarrow> place list \<Rightarrow> place list" where
  "search_step term result =
     (if term \<noteq> [] then filter (search_match (toLowerCase term)) result else result)"

definition tag_step :: "string \<Rightarrow> place list \<Rightarrow> place list" where
  "tag_step tag result =
     (if tag \<noteq> []
      then filter (\<lambda>p. case meta_tags p of None \<Rightarrow> False | Some ts \<Rightarrow> List.member ts tag) result
      else result)"

definition sort_step :: "place list \<Rightarrow> place list" where
  "sort_step result = array_sort sort_cmp result"

definition processedPlaces :: "home_state \<Rightarrow> place list" where
  "processedPlaces st =
     sort_step
       (tag_step (activeTag st)
          (search_step (searchTerm st)
             (category_step (activeCategory st)
                (map (annotate (userLocation st)) (places st)))))"

subsection \<open>Pagination\<close>

definition visiblePlaces :: "home_state \<Rightarrow> place list" where
  "visiblePlaces st = take (page st * PAGE_SIZE) (processedPlaces st)"

text \<open>The number the button that loads more shows, and the test that renders it.\<close>

definition remaining_count :: "home_state \<Rightarrow> nat" where
  "remaining_count st = length (processedPlaces st) - length (visiblePlaces st)"

definition shows_load_more :: "home_state \<Rightarrow> bool" where
  "shows_load_more st = (length (visiblePlaces st) < length (processedPlaces st))"

subsection \<open>Tag vocabulary\<close>

text \<open>\<open>Set.add\<close>, with the set kept as the list of its elements in insertion order.\<close>

definition set_add :: "string \<Rightarrow> string list \<Rightarrow> string list" where
  "set_add t allTags = (if t \<in> set allTags then allTags else allTags @ [t])"

definition add_place_tags :: "place \<Rightarrow> string list \<Rightarrow> string list" where
  "add_place_tags p allTags =
     (case meta_tags p of None \<Rightarrow> allTags | Some ts \<Rightarrow> fold set_add ts allTags)"

definition availableTags :: "home_state \<Rightarrow> string list" where
  "availableTags st =
     (let categoryPlaces = filter (\<lambda>p. category p = activeCategory st) (places st);
          allTags = fold add_place_tags categoryPlaces []
      in take 15 allTags)"

subsection \<open>The card of a place\<close>

text \<open>
  The expression \<open>place.distance && (badge)\<close> in the header of a card. The value of
  \<open>&&\<close> is its left operand when that is falsy, and the badge with the distance otherwise.
\<close>

datatype slot = Nothing | Bare jsnum | Badge jsnum

definition distance_slot :: "place \<Rightarrow> slot" where
  "distance_slot p =
     (case distance p of
        None \<Rightarrow> Nothing
      | Some d \<Rightarrow> if js_truthy d then Badge d else Bare d)"

definition shows_distance :: "place \<Rightarrow> bool" where
  "shows_distance p = (case distance_slot p of Badge d \<Rightarrow> True | _ \<Rightarrow> False)"

text \<open>The tags a card shows: \<open>place.metadata?.tags?.slice(0, 3)\<close>.\<close>

definition card_tags :: "place \<Rightarrow> string list" where
  "card_tags p = (case meta_tags p of None \<Rightarrow> [] | Some ts \<Rightarrow> take 3 ts)"

section \<open>The first version of the page\<close>

text \<open>\<open>filteredPlaces\<close> of \<open>src/app/page.tsx\<close>: the search test runs for every term.\<close>

definition filteredPlaces :: "place list \<Rightarrow> string \<Rightarrow> string \<Rightarrow> place list" where
  "filteredPlaces ps term cat =
     filter (\<lambda>p. search_match (toLowerCase term) p \<and> (cat = ''all'' \<or> category p = cat)) ps"

text \<open>
  \<open>getTags\<close> of \<open>src/app/page.tsx\<close>. \<open>defaultTags\<close> is the array \<open>place.metadata.tags\<close>
  itself when the place has one, and \<open>unshift\<close> writes to it, so the function returns the
  place as it is after the call together with the tags to show.
\<close>

definition getTags :: "place \<Rightarrow> string list \<times> place" where
  "getTags p =
     (case subcategory p of
        None \<Rightarrow> (case meta_tags p of None \<Rightarrow> ([], p) | Some ts \<Rightarrow> (take 3 ts, p))
      | Some sub \<Rightarrow>
          if sub = [] then
            (case meta_tags p of None \<Rightarrow> ([], p) | Some ts \<Rightarrow> (take 3 ts, p))
          else
            (case metadata p of
               None \<Rightarrow> (take 3 [sub], p)
             | Some m \<Rightarrow>
                 (case tags m of
                    None \<Rightarrow> (take 3 [sub], p)
                  | Some ts \<Rightarrow>
                      (take 3 (sub # ts), p\<lparr>metadata := Some (m\<lparr>tags := Some (sub # ts)\<rparr>)\<rparr>))))"

section \<open>Notions the properties are stated with\<close>

text \<open>A place the sort can rank: its distance is a number other than \<open>NaN\<close>.\<close>

definition ranked :: "place \<Rightarrow> bool" where
  "ranked p = (case distance p of None \<Rightarrow> False | Some d \<Rightarrow> d \<noteq> NaN)"

text \<open>Two neighbours are in order when both are ranked and the first is not farther.\<close>

definition pair_ok :: "place \<Rightarrow> place \<Rightarrow> bool" where
  "pair_ok p q =
     (case (distance p, distance q) of
        (Some a, Some b) \<Rightarrow> a = NaN \<or> b = NaN \<or> js_le a b
      | _ \<Rightarrow> True)"


text \<open>A token of the POINT text: not empty, without a space.\<close>

definition token :: "string \<Rightarrow> bool" where
  "token g = (g \<noteq> [] \<and> CHR '' '' \<notin> set g)"

text \<open>
  The text holds, somewhere, an opening parenthesis, a token, one space, a token and a
  closing parenthesis: what the pattern \<open>\(([^ ]+) ([^ ]+)\)\<close> describes.
\<close>

definition has_token_pair :: "string \<Rightarrow> bool" where
  "has_token_pair s =
     (\<exists>pre g1 g2 post. s = pre @ CHR ''('' # g1 @ CHR '' '' # g2 @ CHR '')'' # post
        \<and> token g1 \<and> token g2)"

text \<open>
  The search filter in the words of the specification: the text contains the term as a
  substring once both are in lower case, for the name or for some tag.
\<close>

definition contains_ci :: "string \<Rightarrow> string \<Rightarrow> bool" where
  "contains_ci s term = (\<exists>pre post. toLowerCase s = pre @ toLowerCase term @ post)"

definition spec_search_keeps :: "string \<Rightarrow> place \<Rightarrow> bool" where
  "spec_search_keeps term p =
     (contains_ci (name p) term \<or>
      (\<exists>ts t. meta_tags p = Some ts \<and> t \<in> set ts \<and> contains_ci t term))"

text \<open>
  The tag vocabulary in the words of the specification: all tags of the places of the
  category, in order, and the list without repetitions that keeps each first appearance.
\<close>

definition category_tags :: "string \<Rightarrow> place list \<Rightarrow> string list" where
  "category_tags cat ps =
     concat (map (\<lambda>p. case meta_tags p of None \<Rightarrow> [] | Some ts \<Rightarrow> ts)
                 (filter (\<lambda>p. category p = cat) ps))"

definition first_seen :: "string list \<Rightarrow> string list" where
  "first_seen xs = rev (remdups (rev xs))"

subsection \<open>Sample data\<close>

text \<open>A fetched row with a name, a category, a location and tags, and nothing else.\<close>

definition row :: "string \<Rightarrow> string \<Rightarrow> loc_value \<Rightarrow> string list option \<Rightarrow> place" where
  "row nm cat loc ts =
     \<lparr>id' = nm, name = nm, category = cat, subcategory = None, location = loc,
      metadata = Some \<lparr>tags = ts, description = None, original_description = None\<rparr>,
      google_url = None, rating = None, address = None, distance = None\<rparr>"

text \<open>A row with a given distance, as the sort step receives it.\<close>

definition at_distance :: "string \<Rightarrow> jsnum option \<Rightarrow> place" where
  "at_distance nm d = (row nm ''food'' LNull None)\<lparr>distance := d\<rparr>"

text \<open>The state once the rows have arrived, with the user's coordinate if there is one.\<close>

definition loaded :: "place list \<Rightarrow> coord option \<Rightarrow> home_state" where
  "loaded ps user = initial_state\<lparr>places := ps, loading := False, userLocation := user\<rparr>"

section \<open>Properties of the event handlers\<close>

theorem search_and_tag_keep_page:
  "page (onSearchChange ''temple'' (onLoadMore (onLoadMore initial_state))) \<noteq> 1
   \<and> page (onTagClick ''spicy'' (onLoadMore (onLoadMore initial_state))) \<noteq> 1"
  by (simp add: onSearchChange_def onTagClick_def onLoadMore_def initial_state_def)

text \<open>
  C3, as the code has it: a click on a category tab sets the category, resets the current
  page to 1 and the active tag to empty; a change of the search term or of the active tag
  changes that field and leaves the current page as it is; the current page starts at 1
  and each load of more results adds one to it.
\<close>

theorem handlers_page_and_tag:
  "page (onCategoryClick cat st) = 1
   \<and> activeTag (onCategoryClick cat st) = []
   \<and> activeCategory (onCategoryClick cat st) = cat
   \<and> onSearchChange v st = st\<lparr>searchTerm := v\<rparr>
   \<and> page (onSearchChange v st) = page st
   \<and> onTagClick tag st = st\<lparr>activeTag := tag\<rparr>
   \<and> page (onTagClick tag st) = page st
   \<and> page initial_state = 1
   \<and> page (onLoadMore st) = page st + 1"
  by (simp add: onCategoryClick_def onSearchChange_def onTagClick_def onLoadMore_def
      initial_state_def)

section \<open>Properties of the sort step\<close>

lemma js_gt0_sub: "js_gt0 (js_sub x y) \<longleftrightarrow> x \<noteq> NaN \<and> y \<noteq> NaN \<and> \<not> js_le x y"
  by (cases x; cases y) (auto simp: js_sub_def)

lemma js_gt0_sub_le: "js_gt0 (js_sub x y) \<Longrightarrow> js_le y x"
  by (cases x; cases y) (auto simp: js_sub_def)


lemma gt0_cmp_ranked: "js_gt0 (sort_cmp p q) \<Longrightarrow> ranked p \<and> ranked q \<and> pair_ok q p"
  by (auto simp: sort_cmp_def ranked_def pair_ok_def js_gt0_sub js_gt0_sub_le
      split: option.splits)







lemma insert_before_unranked:
  "\<forall>q \<in> set ps. \<not> ranked q \<Longrightarrow> insert_sorted sort_cmp p ps = p # ps"
  using gt0_cmp_ranked by (cases ps) auto

lemma sort_all_unranked: "\<forall>q \<in> set ps. \<not> ranked q \<Longrightarrow> array_sort sort_cmp ps = ps"
  by (induction ps) (simp_all add: insert_before_unranked)





lemma length_insert_sorted: "length (insert_sorted cmp p ps) = Suc (length ps)"
  by (induction ps) simp_all

lemma length_array_sort: "length (array_sort cmp ps) = length ps"
  by (induction ps) (simp_all add: length_insert_sorted)

lemma distance_annotate_None: "distance (annotate None p) = None"
  by (simp add: annotate_def)

lemma unranked_without_user:
  "q \<in> set (tag_step tag (search_step term (category_step cat (map (annotate None) ps))))
   \<Longrightarrow> \<not> ranked q"
  by (auto simp: tag_step_def search_step_def category_step_def ranked_def
      distance_annotate_None split: if_splits)

lemma processedPlaces_without_user:
  assumes "userLocation st = None"
  shows "processedPlaces st =
     tag_step (activeTag st) (search_step (searchTerm st)
       (category_step (activeCategory st) (map (annotate None) (places st))))"
  using assms unranked_without_user
  by (simp add: processedPlaces_def sort_step_def sort_all_unranked)

text \<open>Unfolding sets for evaluating the parser, the distance and the pipeline on samples.\<close>

lemmas eval_parse = startsWith_def match_here_def greedy_before_close_def parseFloat_def
  unsigned_literal_def is_space_def is_digit_def digits_val_def digit_val_def exponent_factor_def

lemmas eval_dist = getDistanceFromLatLonInKm_def deg2rad_def js_sub_def Math_PI_def









section \<open>Properties of the coordinate parser\<close>

lemma greedy_before_close_Some:
  assumes "greedy_before_close run = Some g2"
  shows "\<exists>t. run = g2 @ CHR '')'' # t \<and> g2 \<noteq> []"
proof -
  from assms obtain c br where d: "dropWhile (\<lambda>c. c \<noteq> CHR '')'') (rev run) = c # br"
    and br: "br \<noteq> []" and g2: "g2 = rev br"
    by (auto simp: greedy_before_close_def split: list.splits if_splits)
  from d have "\<not> (hd (dropWhile (\<lambda>c. c \<noteq> CHR '')'') (rev run)) \<noteq> CHR '')'')"
    using hd_dropWhile [of "\<lambda>c. c \<noteq> CHR '')''" "rev run"] by simp
  with d have c: "c = CHR '')''" by simp
  have "rev run = takeWhile (\<lambda>c. c \<noteq> CHR '')'') (rev run) @ c # br"
    using d takeWhile_dropWhile_id [of "\<lambda>c. c \<noteq> CHR '')''" "rev run"] by simp
  then have "rev (rev run) = rev (takeWhile (\<lambda>c. c \<noteq> CHR '')'') (rev run) @ c # br)"
    by simp
  then have "run = rev br @ c # rev (takeWhile (\<lambda>c. c \<noteq> CHR '')'') (rev run))"
    by simp
  with c g2 br show ?thesis by auto
qed

lemma greedy_before_close_append:
  assumes "g2 \<noteq> []"
  shows "greedy_before_close (g2 @ CHR '')'' # t) \<noteq> None"
proof -
  let ?P = "\<lambda>c. c \<noteq> CHR '')''"
  have r: "rev (g2 @ CHR '')'' # t) = rev t @ CHR '')'' # rev g2" by simp
  show ?thesis
  proof (cases "\<forall>x \<in> set (rev t). ?P x")
    case True
    then have "dropWhile ?P (rev t @ CHR '')'' # rev g2) = CHR '')'' # rev g2"
      by (simp add: dropWhile_append)
    with assms r show ?thesis by (simp add: greedy_before_close_def)
  next
    case False
    then have e: "dropWhile ?P (rev t @ CHR '')'' # rev g2) = dropWhile ?P (rev t) @ CHR '')'' # rev g2"
      by (simp add: dropWhile_append)
    from False have "dropWhile ?P (rev t) \<noteq> []" by (simp add: dropWhile_eq_Nil_conv)
    then obtain c cs where "dropWhile ?P (rev t) = c # cs" by (cases "dropWhile ?P (rev t)") auto
    with e r show ?thesis by (simp add: greedy_before_close_def)
  qed
qed

lemma greedy_before_close_exact: "g2 \<noteq> [] \<Longrightarrow> greedy_before_close (g2 @ [CHR '')'']) = Some g2"
  by (simp add: greedy_before_close_def)

lemma takeWhile_token: "CHR '' '' \<notin> set g \<Longrightarrow> takeWhile (\<lambda>c. c \<noteq> CHR '' '') (g @ CHR '' '' # r) = g"
  by (induction g) auto

lemma dropWhile_token: "CHR '' '' \<notin> set g \<Longrightarrow> dropWhile (\<lambda>c. c \<noteq> CHR '' '') (g @ CHR '' '' # r) = CHR '' '' # r"
  by (induction g) auto

lemma takeWhile_run: "CHR '' '' \<notin> set g \<Longrightarrow> takeWhile (\<lambda>c. c \<noteq> CHR '' '') (g @ r) = g @ takeWhile (\<lambda>c. c \<noteq> CHR '' '') r"
  by (induction g) auto

lemma match_here_Some:
  assumes "match_here rest = Some (g1, g2)"
  shows "\<exists>post. rest = g1 @ CHR '' '' # g2 @ CHR '')'' # post \<and> token g1 \<and> token g2"
proof -
  let ?P = "\<lambda>c. c \<noteq> CHR '' ''"
  from assms obtain c r2 where g1: "g1 = takeWhile ?P rest" and ne: "g1 \<noteq> []"
    and d: "dropWhile ?P rest = c # r2"
    and g: "greedy_before_close (takeWhile ?P r2) = Some g2"
    by (auto simp: match_here_def Let_def split: if_splits list.splits option.splits)
  from d have "\<not> ?P (hd (dropWhile ?P rest))"
    using hd_dropWhile [of ?P rest] by simp
  with d have c: "c = CHR '' ''" by simp
  have rest: "rest = g1 @ CHR '' '' # r2"
    using takeWhile_dropWhile_id [of ?P rest] g1 d c by simp
  from g obtain t where run: "takeWhile ?P r2 = g2 @ CHR '')'' # t" and ne2: "g2 \<noteq> []"
    using greedy_before_close_Some by blast
  have r2: "r2 = g2 @ CHR '')'' # (t @ dropWhile ?P r2)"
    using takeWhile_dropWhile_id [of ?P r2] run by simp
  have "CHR '' '' \<notin> set g1" using g1 set_takeWhileD [of "CHR '' ''" ?P rest] by auto
  moreover have "CHR '' '' \<notin> set (takeWhile ?P r2)"
    using set_takeWhileD [of "CHR '' ''" ?P r2] by auto
  then have "CHR '' '' \<notin> set g2" using run by simp
  ultimately show ?thesis using rest r2 ne ne2 by (auto simp: token_def)
qed

lemma match_here_complete:
  assumes "token g1" "token g2"
  shows "match_here (g1 @ CHR '' '' # g2 @ CHR '')'' # post) \<noteq> None"
proof -
  let ?P = "\<lambda>c. c \<noteq> CHR '' ''"
  from assms have s1: "CHR '' '' \<notin> set g1" and s2: "CHR '' '' \<notin> set g2"
    and n1: "g1 \<noteq> []" and n2: "g2 \<noteq> []" by (simp_all add: token_def)
  have "takeWhile ?P (g2 @ CHR '')'' # post) = g2 @ CHR '')'' # takeWhile ?P post"
    using takeWhile_run [OF s2, of "CHR '')'' # post"] by simp
  then have "greedy_before_close (takeWhile ?P (g2 @ CHR '')'' # post)) \<noteq> None"
    using greedy_before_close_append [OF n2] by simp
  then show ?thesis
    using n1 by (auto simp: match_here_def takeWhile_token [OF s1] dropWhile_token [OF s1])
qed

lemma match_here_exact:
  assumes "token g1" "token g2"
  shows "match_here (g1 @ CHR '' '' # g2 @ [CHR '')'']) = Some (g1, g2)"
proof -
  let ?P = "\<lambda>c. c \<noteq> CHR '' ''"
  from assms have s1: "CHR '' '' \<notin> set g1" and s2: "CHR '' '' \<notin> set g2"
    and n1: "g1 \<noteq> []" and n2: "g2 \<noteq> []" by (simp_all add: token_def)
  have "takeWhile ?P (g2 @ [CHR '')'']) = g2 @ [CHR '')'']"
    using takeWhile_run [OF s2, of "[CHR '')'']"] by simp
  then show ?thesis
    using n1 n2
    by (simp add: match_here_def takeWhile_token [OF s1] dropWhile_token [OF s1]
        greedy_before_close_exact)
qed

lemma regex_match_Some:
  "regex_match s = Some (g1, g2) \<Longrightarrow>
   \<exists>pre post. s = pre @ CHR ''('' # g1 @ CHR '' '' # g2 @ CHR '')'' # post \<and> token g1 \<and> token g2"
proof (induction s)
  case Nil
  then show ?case by simp
next
  case (Cons c rest)
  show ?case
  proof (cases "c = CHR ''('' \<and> match_here rest = Some (g1, g2)")
    case True
    then obtain post where "rest = g1 @ CHR '' '' # g2 @ CHR '')'' # post" "token g1" "token g2"
      using match_here_Some by blast
    with True have "c # rest = [] @ CHR ''('' # g1 @ CHR '' '' # g2 @ CHR '')'' # post" by simp
    with \<open>token g1\<close> \<open>token g2\<close> show ?thesis by blast
  next
    case False
    with Cons.prems have "regex_match rest = Some (g1, g2)"
      by (auto split: if_splits option.splits)
    then obtain pre post where "rest = pre @ CHR ''('' # g1 @ CHR '' '' # g2 @ CHR '')'' # post"
      "token g1" "token g2" using Cons.IH by blast
    then have "c # rest = (c # pre) @ CHR ''('' # g1 @ CHR '' '' # g2 @ CHR '')'' # post" by simp
    with \<open>token g1\<close> \<open>token g2\<close> show ?thesis by blast
  qed
qed

lemma regex_match_complete:
  "token g1 \<Longrightarrow> token g2 \<Longrightarrow>
   regex_match (pre @ CHR ''('' # g1 @ CHR '' '' # g2 @ CHR '')'' # post) \<noteq> None"
proof (induction pre)
  case Nil
  then show ?case using match_here_complete [of g1 g2 post] by (auto split: option.splits)
next
  case (Cons c pre)
  then show ?case by (auto split: option.splits)
qed

lemma regex_match_None_iff: "regex_match s = None \<longleftrightarrow> \<not> has_token_pair s"
proof
  assume n: "regex_match s = None"
  show "\<not> has_token_pair s"
  proof
    assume "has_token_pair s"
    then obtain pre g1 g2 post where "s = pre @ CHR ''('' # g1 @ CHR '' '' # g2 @ CHR '')'' # post"
      "token g1" "token g2" unfolding has_token_pair_def by blast
    then show False using regex_match_complete n by blast
  qed
next
  assume h: "\<not> has_token_pair s"
  show "regex_match s = None"
  proof (cases "regex_match s")
    case None
    then show ?thesis .
  next
    case (Some g)
    obtain g1 g2 where "g = (g1, g2)" by (cases g)
    with Some have "has_token_pair s" using regex_match_Some unfolding has_token_pair_def by blast
    with h show ?thesis by simp
  qed
qed


theorem parseLocation_non_numeral_tokens:
  "parseLocation (LText ''POINT(abc def)'') = Some \<lparr>lat = NaN, lng = NaN\<rparr>
   \<and> distance (annotate (Some \<lparr>lat = Num 22, lng = Num 120\<rparr>)
                 (row ''A'' ''food'' (LText ''POINT(abc def)'') None)) = Some NaN"
  by (simp add: annotate_def row_def eval_parse eval_dist)

text \<open>
  C4, as the code has it. The parser yields no coordinate for an absent value, for an
  object that already holds coordinates, for a text that does not start with POINT and for
  a text that nowhere holds two tokens in parentheses, separated by one space; a place with
  such a location has no distance. Every text that starts with POINT and holds such a pair
  yields a coordinate, whether or not the tokens are numerals.
\<close>

theorem parseLocation_no_coordinate:
  "parseLocation LNull = None
   \<and> parseLocation (LObject y x) = None
   \<and> (\<not> startsWith s ''POINT'' \<longrightarrow> parseLocation (LText s) = None)
   \<and> (\<not> has_token_pair s \<longrightarrow> parseLocation (LText s) = None)
   \<and> (startsWith s ''POINT'' \<and> has_token_pair s \<longrightarrow> parseLocation (LText s) \<noteq> None)
   \<and> (parseLocation (location p) = None \<longrightarrow> distance (annotate user p) = None)"
proof -
  have a: "\<not> has_token_pair s \<longrightarrow> parseLocation (LText s) = None"
  proof
    assume "\<not> has_token_pair s"
    then have "regex_match s = None" using regex_match_None_iff by blast
    then show "parseLocation (LText s) = None" by simp
  qed
  have b: "startsWith s ''POINT'' \<and> has_token_pair s \<longrightarrow> parseLocation (LText s) \<noteq> None"
  proof
    assume h: "startsWith s ''POINT'' \<and> has_token_pair s"
    then have "s \<noteq> []" by (auto simp: startsWith_def)
    moreover from h have "regex_match s \<noteq> None" using regex_match_None_iff [of s] by simp
    ultimately show "parseLocation (LText s) \<noteq> None" using h by auto
  qed
  have c: "parseLocation (location p) = None \<longrightarrow> distance (annotate user p) = None"
    by (simp add: annotate_def split: option.splits)
  from a b c show ?thesis by simp
qed

theorem parseLocation_no_coordinate_witness:
  "\<not> startsWith ''120.3 22.5'' ''POINT'' \<and> parseLocation (LText ''120.3 22.5'') = None
   \<and> \<not> has_token_pair ''POINT 120 22'' \<and> parseLocation (LText ''POINT 120 22'') = None
   \<and> startsWith ''POINT(1 2)'' ''POINT'' \<and> has_token_pair ''POINT(1 2)''
   \<and> parseLocation (LText ''POINT(1 2)'') \<noteq> None
   \<and> parseLocation (location (row ''A'' ''food'' LNull None)) = None
   \<and> distance (annotate (Some \<lparr>lat = Num 22, lng = Num 120\<rparr>) (row ''A'' ''food'' LNull None))
       = None"
proof -
  let ?p = "row ''A'' ''food'' LNull None"
  let ?u = "Some \<lparr>lat = Num 22, lng = Num 120\<rparr>"
  have h1: "\<not> startsWith ''120.3 22.5'' ''POINT''" by (simp add: startsWith_def)
  have "regex_match ''POINT 120 22'' = None" by simp
  then have h2: "\<not> has_token_pair ''POINT 120 22''" using regex_match_None_iff by blast
  have h3: "startsWith ''POINT(1 2)'' ''POINT''" by (simp add: startsWith_def)
  have "regex_match ''POINT(1 2)'' \<noteq> None" by (simp add: eval_parse)
  then have h4: "has_token_pair ''POINT(1 2)''" unfolding regex_match_None_iff by simp
  have h5: "parseLocation (location ?p) = None" by (simp add: row_def)
  from h1 h2 h3 h4 h5
    parseLocation_no_coordinate [of _ _ "''120.3 22.5''" ?p ?u]
    parseLocation_no_coordinate [of _ _ "''POINT 120 22''" ?p ?u]
    parseLocation_no_coordinate [of _ _ "''POINT(1 2)''" ?p ?u]
  show ?thesis by blast
qed

text \<open>
  C5. On the text POINT(120.334 22.56) the parser yields the pair with \<open>lng\<close> 120.334 and
  \<open>lat\<close> 22.56; for every text POINT(first second) of two tokens, \<open>lng\<close> is the number
  read from the first token and \<open>lat\<close> the number read from the second.
\<close>

theorem parseLocation_point_text:
  "parseLocation (LText ''POINT(120.334 22.56)'') = Some \<lparr>lat = Num 22.56, lng = Num 120.334\<rparr>
   \<and> (token g1 \<and> token g2 \<longrightarrow>
        parseLocation (LText (''POINT('' @ g1 @ '' '' @ g2 @ '')''))
          = Some \<lparr>lat = parseFloat g2, lng = parseFloat g1\<rparr>)"
proof -
  have a: "parseLocation (LText ''POINT(120.334 22.56)'')
             = Some \<lparr>lat = Num 22.56, lng = Num 120.334\<rparr>"
    by (simp add: eval_parse)
  have b: "token g1 \<and> token g2 \<longrightarrow>
        parseLocation (LText (''POINT('' @ g1 @ '' '' @ g2 @ '')''))
          = Some \<lparr>lat = parseFloat g2, lng = parseFloat g1\<rparr>"
  proof
    assume "token g1 \<and> token g2"
    then have "match_here (g1 @ CHR '' '' # g2 @ [CHR '')'']) = Some (g1, g2)"
      using match_here_exact by blast
    then show "parseLocation (LText (''POINT('' @ g1 @ '' '' @ g2 @ '')''))
          = Some \<lparr>lat = parseFloat g2, lng = parseFloat g1\<rparr>"
      by (simp add: startsWith_def)
  qed
  from a b show ?thesis by blast
qed

theorem parseLocation_point_text_witness:
  "token ''121.5'' \<and> token ''-25.03''
   \<and> parseLocation (LText ''POINT(121.5 -25.03)'') = Some \<lparr>lat = Num (- 25.03), lng = Num 121.5\<rparr>"
proof -
  have t: "token ''121.5'' \<and> token ''-25.03''" by (simp add: token_def)
  have f: "parseFloat ''121.5'' = Num 121.5 \<and> parseFloat ''-25.03'' = Num (- 25.03)"
    by (simp add: eval_parse)
  from t f parseLocation_point_text [of "''121.5''" "''-25.03''"] show ?thesis by simp
qed

section \<open>Properties of the search filter\<close>

lemma startsWith_iff: "startsWith s t \<longleftrightarrow> (\<exists>post. s = t @ post)"
proof
  assume "startsWith s t"
  then have "s = t @ drop (length t) s"
    unfolding startsWith_def using append_take_drop_id [of "length t" s] by simp
  then show "\<exists>post. s = t @ post" ..
next
  assume "\<exists>post. s = t @ post"
  then show "startsWith s t" by (auto simp: startsWith_def)
qed

lemma includes_str_iff: "includes_str s t \<longleftrightarrow> (\<exists>pre post. s = pre @ t @ post)"
proof (induction s)
  case Nil
  then show ?case by auto
next
  case (Cons c cs)
  show ?case
  proof
    assume "includes_str (c # cs) t"
    then consider "startsWith (c # cs) t" | "includes_str cs t" by auto
    then show "\<exists>pre post. c # cs = pre @ t @ post"
    proof cases
      case 1
      then obtain post where "c # cs = [] @ t @ post" using startsWith_iff by auto
      then show ?thesis by blast
    next
      case 2
      then obtain pre post where "cs = pre @ t @ post" using Cons.IH by blast
      then have "c # cs = (c # pre) @ t @ post" by simp
      then show ?thesis by blast
    qed
  next
    assume "\<exists>pre post. c # cs = pre @ t @ post"
    then obtain pre post where e: "c # cs = pre @ t @ post" by blast
    show "includes_str (c # cs) t"
    proof (cases pre)
      case Nil
      with e have "startsWith (c # cs) t" using startsWith_iff by auto
      then show ?thesis by simp
    next
      case (Cons d pre')
      with e have "cs = pre' @ t @ post" by simp
      then have "includes_str cs t" using Cons.IH by blast
      then show ?thesis by simp
    qed
  qed
qed

lemma search_match_spec: "search_match (toLowerCase term) p \<longleftrightarrow> spec_search_keeps term p"
  by (auto simp: search_match_def spec_search_keeps_def contains_ci_def includes_str_iff
      list_ex_iff split: option.splits)

lemma includes_str_empty: "includes_str s []"
  by (cases s) (simp_all add: startsWith_def)

lemma search_match_spec_fun: "search_match (toLowerCase term) = spec_search_keeps term"
  by (rule ext) (rule search_match_spec)

theorem whitespace_term_filters:
  "search_step '' '' [row ''Cafe'' ''food'' LNull None] = []
   \<and> filteredPlaces [row ''Cafe'' ''food'' LNull None] '' '' ''all'' = []"
  by (simp add: search_step_def filteredPlaces_def search_match_def row_def meta_tags_def
      toLowerCase_def lower_char_def startsWith_def)

text \<open>
  C7, as the code has it. For a term that is not empty, the search filter keeps exactly the
  places whose name contains the term as a substring, both in lower case, or that have a
  tag which does; a term of white space is a term like any other and is looked for as it
  is. The empty term keeps every place. The first version of the page applies the same
  test, together with the category test, for every term.
\<close>

theorem search_step_keeps:
  "(term \<noteq> [] \<longrightarrow> search_step term ps = filter (spec_search_keeps term) ps)
   \<and> search_step [] ps = ps
   \<and> filteredPlaces ps term cat
       = filter (\<lambda>p. spec_search_keeps term p \<and> (cat = ''all'' \<or> category p = cat)) ps
   \<and> filteredPlaces ps [] ''all'' = ps"
proof -
  have a: "term \<noteq> [] \<longrightarrow> search_step term ps = filter (spec_search_keeps term) ps"
    by (simp add: search_step_def search_match_spec_fun)
  have b: "search_step [] ps = ps"
    by (simp add: search_step_def)
  have c: "filteredPlaces ps term cat
       = filter (\<lambda>p. spec_search_keeps term p \<and> (cat = ''all'' \<or> category p = cat)) ps"
    by (simp add: filteredPlaces_def search_match_spec)
  have d: "filteredPlaces ps [] ''all'' = ps"
    by (simp add: filteredPlaces_def search_match_def toLowerCase_def includes_str_empty)
  from a b c d show ?thesis by blast
qed

theorem search_step_keeps_witness:
  "''TEMPLE'' \<noteq> []
   \<and> filter (spec_search_keeps ''TEMPLE'')
        [row ''Temple View Cafe'' ''food'' LNull (Some [''coffee'']),
         row ''X'' ''travel'' LNull (Some [''old'', ''temple'']),
         row ''Harbour'' ''dive'' LNull None]
      = [row ''Temple View Cafe'' ''food'' LNull (Some [''coffee'']),
         row ''X'' ''travel'' LNull (Some [''old'', ''temple''])]"
proof -
  let ?ps = "[row ''Temple View Cafe'' ''food'' LNull (Some [''coffee'']),
         row ''X'' ''travel'' LNull (Some [''old'', ''temple'']),
         row ''Harbour'' ''dive'' LNull None]"
  have h: "''TEMPLE'' \<noteq> []" by simp
  have e: "search_step ''TEMPLE'' ?ps
      = [row ''Temple View Cafe'' ''food'' LNull (Some [''coffee'']),
         row ''X'' ''travel'' LNull (Some [''old'', ''temple''])]"
    by (simp add: search_step_def search_match_def row_def meta_tags_def
        toLowerCase_def lower_char_def startsWith_def)
  from h e search_step_keeps [of "''TEMPLE''" ?ps] show ?thesis by simp
qed

section \<open>Properties of the tag vocabulary\<close>

lemma first_seen_distinct_id: "distinct xs \<Longrightarrow> first_seen xs = xs"
  by (simp add: first_seen_def distinct_remdups_id)

lemma fold_set_add: "distinct acc \<Longrightarrow> fold set_add ts acc = first_seen (acc @ ts)"
proof (induction ts rule: rev_induct)
  case Nil
  then show ?case by (simp add: first_seen_distinct_id)
next
  case (snoc t ts)
  then show ?case by (auto simp: first_seen_def set_add_def)
qed

lemma distinct_first_seen: "distinct (first_seen xs)"
  by (simp add: first_seen_def)

lemma set_first_seen: "set (first_seen xs) = set xs"
  by (simp add: first_seen_def)

lemma remdups_append_remdups: "remdups (xs @ remdups ys) = remdups (xs @ ys)"
  by (induction xs) auto

lemma first_seen_absorb: "first_seen (first_seen xs @ ys) = first_seen (xs @ ys)"
  by (simp add: first_seen_def remdups_append_remdups)

lemma fold_add_place_tags:
  "distinct acc \<Longrightarrow>
   fold add_place_tags ps acc =
     first_seen (acc @ concat (map (\<lambda>p. case meta_tags p of None \<Rightarrow> [] | Some ts \<Rightarrow> ts) ps))"
proof (induction ps arbitrary: acc)
  case Nil
  then show ?case by (simp add: first_seen_distinct_id)
next
  case (Cons p ps)
  show ?case
  proof (cases "meta_tags p")
    case None
    with Cons show ?thesis by (simp add: add_place_tags_def)
  next
    case (Some ts)
    have d: "distinct (first_seen (acc @ ts))" by (rule distinct_first_seen)
    have "fold add_place_tags (p # ps) acc = fold add_place_tags ps (first_seen (acc @ ts))"
      using Some Cons.prems by (simp add: add_place_tags_def fold_set_add)
    also have "\<dots> = first_seen (first_seen (acc @ ts) @ concat (map (\<lambda>p. case meta_tags p of None \<Rightarrow> [] | Some ts \<Rightarrow> ts) ps))"
      using Cons.IH [OF d] .
    also have "\<dots> = first_seen (acc @ ts @ concat (map (\<lambda>p. case meta_tags p of None \<Rightarrow> [] | Some ts \<Rightarrow> ts) ps))"
      using first_seen_absorb [of "acc @ ts"] by simp
    finally show ?thesis using Some by simp
  qed
qed

lemma availableTags_first_seen:
  "availableTags st = take 15 (first_seen (category_tags (activeCategory st) (places st)))"
  by (simp add: availableTags_def category_tags_def fold_add_place_tags)

lemma length_first_seen: "length (first_seen xs) = card (set xs)"
  by (simp add: first_seen_def length_remdups_card_conv)

text \<open>
  C8. The tag vocabulary is the list of the tags of the places whose category is the
  active one, without repetitions and in the order of first appearance, cut to its first
  15 entries; it does not depend on the search term, the active tag or the page.
\<close>

theorem availableTags_vocabulary:
  "availableTags st = take 15 (first_seen (category_tags (activeCategory st) (places st)))
   \<and> distinct (availableTags st)
   \<and> set (availableTags st) \<subseteq> set (category_tags (activeCategory st) (places st))
   \<and> length (availableTags st)
       = min 15 (card (set (category_tags (activeCategory st) (places st))))
   \<and> availableTags (st\<lparr>searchTerm := term, activeTag := tag, page := n\<rparr>) = availableTags st"
proof -
  let ?all = "category_tags (activeCategory st) (places st)"
  have a: "availableTags st = take 15 (first_seen ?all)"
    by (rule availableTags_first_seen)
  have b: "distinct (availableTags st)"
    unfolding a using distinct_first_seen by (rule distinct_take)
  have "set (take 15 (first_seen ?all)) \<subseteq> set (first_seen ?all)"
    by (rule set_take_subset)
  then have c: "set (availableTags st) \<subseteq> set ?all"
    unfolding a by (simp add: set_first_seen)
  have d: "length (availableTags st) = min 15 (card (set ?all))"
    unfolding a by (simp add: length_first_seen min.commute)
  have e: "availableTags (st\<lparr>searchTerm := term, activeTag := tag, page := n\<rparr>) = availableTags st"
    by (simp add: availableTags_def)
  from a b c d e show ?thesis by blast
qed

theorem availableTags_vocabulary_witness:
  "availableTags
     (loaded [row ''One'' ''food'' LNull (Some [''a'', ''b'', ''a'', ''c'', ''d'', ''e'', ''f'', ''g'', ''h'']),
              row ''Two'' ''dive'' LNull (Some [''z'']),
              row ''Three'' ''food'' LNull None,
              row ''Four'' ''food'' LNull
                (Some [''i'', ''b'', ''j'', ''k'', ''l'', ''m'', ''n'', ''o'', ''p'', ''q'', ''r''])]
             None)
   = [''a'', ''b'', ''c'', ''d'', ''e'', ''f'', ''g'', ''h'', ''i'', ''j'', ''k'', ''l'', ''m'', ''n'', ''o'']"
proof -
  let ?st = "loaded [row ''One'' ''food'' LNull (Some [''a'', ''b'', ''a'', ''c'', ''d'', ''e'', ''f'', ''g'', ''h'']),
              row ''Two'' ''dive'' LNull (Some [''z'']),
              row ''Three'' ''food'' LNull None,
              row ''Four'' ''food'' LNull
                (Some [''i'', ''b'', ''j'', ''k'', ''l'', ''m'', ''n'', ''o'', ''p'', ''q'', ''r''])]
             None"
  have "take 15 (first_seen (category_tags (activeCategory ?st) (places ?st)))
     = [''a'', ''b'', ''c'', ''d'', ''e'', ''f'', ''g'', ''h'', ''i'', ''j'', ''k'', ''l'', ''m'', ''n'', ''o'']"
    by (simp add: first_seen_def category_tags_def loaded_def initial_state_def row_def
        meta_tags_def)
  with availableTags_vocabulary [of ?st] show ?thesis by simp
qed

section \<open>Properties of the pagination\<close>

lemma processedPlaces_page: "processedPlaces (st\<lparr>page := n\<rparr>) = processedPlaces st"
  by (simp add: processedPlaces_def)

lemma processedPlaces_sample:
  "processedPlaces ((loaded (replicate 75 (row ''P'' ''food'' LNull None)) None)\<lparr>page := n\<rparr>)
     = replicate 75 (row ''P'' ''food'' LNull None)"
proof -
  let ?st = "loaded (replicate 75 (row ''P'' ''food'' LNull None)) None"
  have u: "userLocation ?st = None" by (simp add: loaded_def)
  have r: "annotate None (row ''P'' ''food'' LNull None) = row ''P'' ''food'' LNull None"
    by (simp add: annotate_def row_def)
  have "processedPlaces ?st = replicate 75 (row ''P'' ''food'' LNull None)"
    unfolding processedPlaces_without_user [OF u]
    by (simp add: loaded_def initial_state_def tag_step_def search_step_def category_step_def r)
      (simp add: row_def)
  then show ?thesis by (simp add: processedPlaces_page)
qed

text \<open>
  C9. The visible list is the first \<open>PAGE_SIZE * page\<close> entries of the processed list, and
  the remaining count is the length of the processed list minus the length of the visible
  one. With the page size 30 and 75 processed places, page 1 shows 30, page 2 shows 60 and
  page 3 shows all 75 with nothing remaining; loading more shows the next page of the same
  list.
\<close>

theorem visiblePlaces_pagination:
  "visiblePlaces st = take (PAGE_SIZE * page st) (processedPlaces st)
   \<and> length (visiblePlaces st) = min (PAGE_SIZE * page st) (length (processedPlaces st))
   \<and> remaining_count st = length (processedPlaces st) - length (visiblePlaces st)
   \<and> PAGE_SIZE = 30
   \<and> visiblePlaces (onLoadMore st) = take (PAGE_SIZE * (page st + 1)) (processedPlaces st)
   \<and> (length (processedPlaces st) = 75 \<and> page st = 1 \<longrightarrow>
         length (visiblePlaces st) = 30 \<and> remaining_count st = 45)
   \<and> (length (processedPlaces st) = 75 \<and> page st = 2 \<longrightarrow>
         length (visiblePlaces st) = 60 \<and> remaining_count st = 15)
   \<and> (length (processedPlaces st) = 75 \<and> page st = 3 \<longrightarrow>
         visiblePlaces st = processedPlaces st \<and> remaining_count st = 0
         \<and> \<not> shows_load_more st)"
proof -
  have a: "visiblePlaces st = take (PAGE_SIZE * page st) (processedPlaces st)"
    by (simp add: visiblePlaces_def mult.commute)
  have b: "length (visiblePlaces st) = min (PAGE_SIZE * page st) (length (processedPlaces st))"
    unfolding a by (simp add: min.commute)
  have c: "remaining_count st = length (processedPlaces st) - length (visiblePlaces st)"
    by (simp add: remaining_count_def)
  have d: "PAGE_SIZE = 30" by (simp add: PAGE_SIZE_def)
  have "processedPlaces (onLoadMore st) = processedPlaces st"
    by (simp add: onLoadMore_def processedPlaces_page)
  then have e: "visiblePlaces (onLoadMore st) = take (PAGE_SIZE * (page st + 1)) (processedPlaces st)"
    by (simp add: visiblePlaces_def onLoadMore_def mult.commute)
  have f: "length (processedPlaces st) = 75 \<and> page st = 1 \<longrightarrow>
         length (visiblePlaces st) = 30 \<and> remaining_count st = 45"
    using b c by (simp add: PAGE_SIZE_def)
  have g: "length (processedPlaces st) = 75 \<and> page st = 2 \<longrightarrow>
         length (visiblePlaces st) = 60 \<and> remaining_count st = 15"
    using b c by (simp add: PAGE_SIZE_def)
  have h: "length (processedPlaces st) = 75 \<and> page st = 3 \<longrightarrow>
         visiblePlaces st = processedPlaces st \<and> remaining_count st = 0 \<and> \<not> shows_load_more st"
    using a c by (simp add: shows_load_more_def PAGE_SIZE_def)
  from a b c d e f g h show ?thesis by blast
qed

theorem visiblePlaces_pagination_witness:
  "length (visiblePlaces ((loaded (replicate 75 (row ''P'' ''food'' LNull None)) None)\<lparr>page := 1\<rparr>)) = 30
   \<and> length (visiblePlaces ((loaded (replicate 75 (row ''P'' ''food'' LNull None)) None)\<lparr>page := 2\<rparr>)) = 60
   \<and> length (visiblePlaces ((loaded (replicate 75 (row ''P'' ''food'' LNull None)) None)\<lparr>page := 3\<rparr>)) = 75
   \<and> remaining_count ((loaded (replicate 75 (row ''P'' ''food'' LNull None)) None)\<lparr>page := 3\<rparr>) = 0"
proof -
  let ?st = "\<lambda>n. (loaded (replicate 75 (row ''P'' ''food'' LNull None)) None)\<lparr>page := n\<rparr>"
  have l: "\<And>n. length (processedPlaces (?st n)) = 75 \<and> page (?st n) = n"
    by (simp add: processedPlaces_sample)
  from l [of 1] visiblePlaces_pagination [of "?st 1"]
  have p1: "length (visiblePlaces (?st 1)) = 30" by blast
  from l [of 2] visiblePlaces_pagination [of "?st 2"]
  have p2: "length (visiblePlaces (?st 2)) = 60" by blast
  from l [of 3] visiblePlaces_pagination [of "?st 3"]
  have p3: "visiblePlaces (?st 3) = processedPlaces (?st 3) \<and> remaining_count (?st 3) = 0"
    by blast
  with l [of 3] have p3': "length (visiblePlaces (?st 3)) = 75" by simp
  from p1 p2 p3 p3' show ?thesis by blast
qed

section \<open>Properties of the card\<close>

lemma self_distance:
  "getDistanceFromLatLonInKm (Num a) (Num b) (Num a) (Num b) = Num 0"
  by (simp add: eval_dist)

text \<open>
  C10. The distance badge of a card is shown only when the place has a distance and the
  distance is not zero (nor \<open>NaN\<close>): the guard tests the value for truthiness. A place at
  distance 0, as when the user stands at the coordinates of the place, shows no badge;
  the expression is then the number 0 itself.
\<close>

theorem distance_badge_guard:
  "(shows_distance p \<longleftrightarrow> (\<exists>d. distance p = Some d \<and> d \<noteq> Num 0 \<and> d \<noteq> NaN))
   \<and> (distance p = Some (Num 0) \<longrightarrow> \<not> shows_distance p \<and> distance_slot p = Bare (Num 0))
   \<and> (distance p = None \<longrightarrow> \<not> shows_distance p)
   \<and> (parseLocation (location p) = Some \<lparr>lat = Num a, lng = Num b\<rparr> \<longrightarrow>
         distance (annotate (Some \<lparr>lat = Num a, lng = Num b\<rparr>) p) = Some (Num 0)
         \<and> \<not> shows_distance (annotate (Some \<lparr>lat = Num a, lng = Num b\<rparr>) p))"
proof -
  have t: "\<And>d. js_truthy d \<longleftrightarrow> d \<noteq> Num 0 \<and> d \<noteq> NaN"
  proof -
    fix d show "js_truthy d \<longleftrightarrow> d \<noteq> Num 0 \<and> d \<noteq> NaN" by (cases d) simp_all
  qed
  have a: "shows_distance p \<longleftrightarrow> (\<exists>d. distance p = Some d \<and> d \<noteq> Num 0 \<and> d \<noteq> NaN)"
    by (cases "distance p") (simp_all add: shows_distance_def distance_slot_def t)
  have b: "distance p = Some (Num 0) \<longrightarrow> \<not> shows_distance p \<and> distance_slot p = Bare (Num 0)"
    by (simp add: shows_distance_def distance_slot_def)
  have c: "distance p = None \<longrightarrow> \<not> shows_distance p"
    by (simp add: shows_distance_def distance_slot_def)
  have d: "parseLocation (location p) = Some \<lparr>lat = Num a, lng = Num b\<rparr> \<longrightarrow>
         distance (annotate (Some \<lparr>lat = Num a, lng = Num b\<rparr>) p) = Some (Num 0)
         \<and> \<not> shows_distance (annotate (Some \<lparr>lat = Num a, lng = Num b\<rparr>) p)"
    by (simp add: annotate_def shows_distance_def distance_slot_def self_distance)
  from a b c d show ?thesis by blast
qed

theorem distance_badge_guard_witness:
  "parseLocation (location (row ''B'' ''food'' (LText ''POINT(120 22)'') None))
     = Some \<lparr>lat = Num 22, lng = Num 120\<rparr>
   \<and> \<not> shows_distance
         (annotate (Some \<lparr>lat = Num 22, lng = Num 120\<rparr>)
            (row ''B'' ''food'' (LText ''POINT(120 22)'') None))
   \<and> distance (at_distance ''C'' (Some (Num 0))) = Some (Num 0)
   \<and> \<not> shows_distance (at_distance ''C'' (Some (Num 0)))
   \<and> shows_distance (at_distance ''D'' (Some (Num 1.5)))"
proof -
  let ?p = "row ''B'' ''food'' (LText ''POINT(120 22)'') None"
  have h1: "parseLocation (location ?p) = Some \<lparr>lat = Num 22, lng = Num 120\<rparr>"
    by (simp add: row_def eval_parse)
  with distance_badge_guard [of ?p 22 120]
  have c1: "\<not> shows_distance (annotate (Some \<lparr>lat = Num 22, lng = Num 120\<rparr>) ?p)" by blast
  have h2: "distance (at_distance ''C'' (Some (Num 0))) = Some (Num 0)"
    by (simp add: at_distance_def)
  with distance_badge_guard [of "at_distance ''C'' (Some (Num 0))"]
  have c2: "\<not> shows_distance (at_distance ''C'' (Some (Num 0)))" by blast
  have "distance (at_distance ''D'' (Some (Num 1.5))) = Some (Num 1.5)
        \<and> Num 1.5 \<noteq> Num 0 \<and> Num 1.5 \<noteq> NaN"
    by (simp add: at_distance_def)
  with distance_badge_guard [of "at_distance ''D'' (Some (Num 1.5))"]
  have c3: "shows_distance (at_distance ''D'' (Some (Num 1.5)))" by blast
  from h1 c1 h2 c2 c3 show ?thesis by blast
qed

section \<open>The tags of a card and the fetched record\<close>

text \<open>
  C2 on \<open>getTags\<close> of the first version of the page: for a place with a subcategory and a
  tag array, the call writes the subcategory into the tag array of the fetched record, and
  a second call on the same record writes it again.
\<close>

theorem getTags_mutates_source_tags:
  "meta_tags ((row ''Reef'' ''dive'' LNull (Some [''a'', ''b'']))\<lparr>subcategory := Some ''shore''\<rparr>)
     = Some [''a'', ''b'']
   \<and> fst (getTags ((row ''Reef'' ''dive'' LNull (Some [''a'', ''b'']))\<lparr>subcategory := Some ''shore''\<rparr>))
     = [''shore'', ''a'', ''b'']
   \<and> meta_tags (snd (getTags
        ((row ''Reef'' ''dive'' LNull (Some [''a'', ''b'']))\<lparr>subcategory := Some ''shore''\<rparr>)))
     = Some [''shore'', ''a'', ''b'']
   \<and> fst (getTags (snd (getTags
        ((row ''Reef'' ''dive'' LNull (Some [''a'', ''b'']))\<lparr>subcategory := Some ''shore''\<rparr>))))
     = [''shore'', ''shore'', ''a'']
   \<and> card_tags ((row ''Reef'' ''dive'' LNull (Some [''a'', ''b'']))\<lparr>subcategory := Some ''shore''\<rparr>)
     = [''a'', ''b'']"
  by (simp add: getTags_def row_def meta_tags_def card_tags_def)

end
